theory Spec2Isabelle
  imports Complex_Main
begin

section \<open>Sliding-window gesture inference (scripts/inference.py)\<close>

text \<open>
  The embedding follows \<^verbatim>\<open>generate_gestures\<close> and the unnormalisation step of
  \<^verbatim>\<open>main\<close>. Conventions:
  \<^item> Times are Python floats, that is doubles: every arithmetic operation on them
    rounds its exact result to the nearest double (\<open>float64\<close> below). Pose channels are
    read as real numbers: their rounding is not modelled.
  \<^item> A tensor or array of shape (T, pose_dim) is a list of T frames, a frame is the list
    of its channels. The batch axis of size 1 is left out. Every tensor of a run (the
    mean pose, a seed sequence, the decoder's outputs) has \<^verbatim>\<open>pose_dim\<close> columns;
    shapes are checked along the time axis, where the slices and assignments of the
    source can disagree.
  \<^item> Every exception the source can raise is a value of \<open>error\<close>; a run returns the
    list of decoder invocations it made together with its result or its exception.
\<close>

subsection \<open>Data\<close>

type_synonym frame = "real list"
type_synonym matrix = "frame list"

text \<open>A transcript entry \<^verbatim>\<open>[word, start_time, end_time]\<close>.\<close>

type_synonym word = "string \<times> real \<times> real"

datatype error = IndexError | ZeroDivisionError | RuntimeError | ValueError | AttributeError

text \<open>The fields of \<^verbatim>\<open>args\<close> that the inference reads.\<close>

record args =
  n_poses :: nat
  n_pre_poses :: nat
  motion_resampling_framerate :: real
  data_mean :: frame
  data_std :: frame

text \<open>
  The vocabulary object \<^verbatim>\<open>lang_model\<close>. Its class is not part of the sources at
  hand; the record holds what the inference reads from it.
\<close>

record lang_model =
  SOS_token :: int
  EOS_token :: int
  UNK_token :: int
  word2index :: "string \<Rightarrow> int option"

text \<open>
  Modelled from the spec: \<^verbatim>\<open>lang_model.get_word_index\<close> is missing from the sources.
  The spec's words: "idx(w) returns the mapped index if w is known, else the UNKNOWN
  sentinel".
\<close>

definition get_word_index :: "lang_model \<Rightarrow> string \<Rightarrow> int" where
  "get_word_index lm w = (case word2index lm w of Some i \<Rightarrow> i | None \<Rightarrow> UNK_token lm)"

text \<open>
  The decoder \<^verbatim>\<open>pose_decoder(in_text, words_lengths, pre_seq, None)\<close> is a black box:
  a function of the encoded words, their count and the seed frames that returns a
  tensor or raises. One invocation is recorded as the triple of its arguments.
\<close>

type_synonym call = "int list \<times> nat \<times> matrix"
type_synonym pose_decoder = "int list \<Rightarrow> nat \<Rightarrow> matrix \<Rightarrow> error + matrix"

text \<open>
  \<^verbatim>\<open>DataPreprocessor.get_words_in_time_range(word_list, start_time, end_time)\<close> is not
  part of the sources at hand either; it is a parameter of the model.
\<close>

type_synonym words_in_time_range = "word list \<Rightarrow> real \<Rightarrow> real \<Rightarrow> word list"

text \<open>
  The argument \<^verbatim>\<open>seed_seq\<close>, when it is not \<^verbatim>\<open>None\<close>: a Python list of frames or an
  array of shape (k, pose_dim). The two differ when a slice of them is empty.
\<close>

datatype seed = is_list: Frames_list (seed_frames: matrix) | Frames_array (seed_frames: matrix)

subsection \<open>Double-precision arithmetic\<close>

text \<open>
  Rounding to the nearest integer, ties to the even one.
\<close>

definition round_half_even :: "real \<Rightarrow> int" where
  "round_half_even y =
     (let f = \<lfloor>y\<rfloor>; r = y - of_int f
      in if r < 1 / 2 then f else if 1 / 2 < r then f + 1 else if even f then f else f + 1)"

text \<open>
  The exponent \<open>e\<close> with \<open>2 ^ e \<le> x < 2 ^ (e + 1)\<close> for a positive \<open>x\<close>, found by halving
  or doubling; the first argument bounds the number of steps.
\<close>

fun binary_exponent :: "nat \<Rightarrow> real \<Rightarrow> int" where
  "binary_exponent 0 x = 0"
| "binary_exponent (Suc fuel) x =
     (if 2 \<le> x then binary_exponent fuel (x / 2) + 1
      else if x < 1 then binary_exponent fuel (x * 2) - 1
      else 0)"

definition pow2 :: "int \<Rightarrow> real" where
  "pow2 q = (if 0 \<le> q then 2 ^ nat q else 1 / 2 ^ nat (- q))"

text \<open>
  The double nearest to a real number, ties to the even significand: 53 significant
  bits, and multiples of \<open>2 ^ -1074\<close> below \<open>2 ^ -1022\<close>. Python's \<^verbatim>\<open>x / y\<close>,
  \<^verbatim>\<open>x - y\<close>, \<^verbatim>\<open>x + y\<close> and \<^verbatim>\<open>x * y\<close> on floats are \<open>float64\<close> of the exact result.
  Results of magnitude \<open>2 ^ 1024\<close> and more, which are infinities in Python, are not
  modelled.
\<close>

definition float64 :: "real \<Rightarrow> real" where
  "float64 x =
     (if x = 0 then 0
      else (let q = max (binary_exponent 2200 \<bar>x\<bar> - 52) (- 1074)
            in sgn x * (of_int (round_half_even (\<bar>x\<bar> / pow2 q)) * pow2 q)))"

subsection \<open>Python slices and tensor assignment\<close>

text \<open>
  \<^verbatim>\<open>xs[-n:]\<close> and \<^verbatim>\<open>xs[:-n]\<close> for \<open>n \<ge> 0\<close>. For \<open>n = 0\<close> the index \<open>-0\<close> is \<open>0\<close>:
  the first slice is the whole of \<open>xs\<close> and the second is empty. For \<open>n\<close> beyond the
  length the start (the stop) is clipped to \<open>0\<close>.
\<close>

definition slice_last :: "nat \<Rightarrow> 'a list \<Rightarrow> 'a list" where
  "slice_last n xs = (if n = 0 then xs else drop (length xs - n) xs)"

definition slice_but_last :: "nat \<Rightarrow> 'a list \<Rightarrow> 'a list" where
  "slice_but_last n xs = (if n = 0 then [] else take (length xs - n) xs)"

text \<open>
  \<^verbatim>\<open>pre_seq[0, :, :] = src\<close> for \<^verbatim>\<open>pre_seq\<close> of \<open>rows\<close> frames: torch copies \<open>src\<close>
  when it has \<open>rows\<close> frames, expands a single frame to \<open>rows\<close> frames, and raises
  RuntimeError for any other number of frames.
\<close>

definition setitem_pre_seq :: "nat \<Rightarrow> matrix \<Rightarrow> error + matrix" where
  "setitem_pre_seq rows src =
     (if length src = rows then Inr src
      else if length src = 1 then Inr (replicate rows (hd src))
      else Inl RuntimeError)"

subsection \<open>Seed frames (lines 27-34)\<close>

text \<open>
  Line 30 builds \<^verbatim>\<open>torch.Tensor(seed_seq[0:args.n_pre_poses])\<close>. An empty slice of a
  Python list is \<^verbatim>\<open>[]\<close>, whose tensor has shape (0,): it fits no \<^verbatim>\<open>pre_seq\<close> (of
  \<^verbatim>\<open>pose_dim\<close> at least 1) and the assignment raises RuntimeError. An empty slice of
  an array keeps the shape (0, pose_dim).
\<close>

definition initial_pre_seq :: "args \<Rightarrow> seed option \<Rightarrow> error + matrix" where
  "initial_pre_seq a seed_seq =
     (case seed_seq of
        Some sd \<Rightarrow>
          (if is_list sd \<and> take (n_pre_poses a) (seed_frames sd) = [] then Inl RuntimeError
           else setitem_pre_seq (n_pre_poses a) (take (n_pre_poses a) (seed_frames sd)))
      | None \<Rightarrow> setitem_pre_seq (n_pre_poses a) (replicate (n_pre_poses a) (data_mean a)))"

subsection \<open>Inference units (lines 36-46)\<close>

definition unit_time :: "args \<Rightarrow> real" where
  "unit_time a = float64 (real (n_poses a) / motion_resampling_framerate a)"

definition stride_time :: "args \<Rightarrow> real" where
  "stride_time a =
     float64 ((real (n_poses a) - real (n_pre_poses a)) / motion_resampling_framerate a)"

text \<open>
  Lines 37-42: the number of subdivisions before the cap. Python raises
  ZeroDivisionError on a zero frame rate, and on a zero stride when the quotient is
  evaluated. \<^verbatim>\<open>math.ceil\<close> is the exact ceiling of the rounded quotient.
\<close>

definition num_subdivision :: "args \<Rightarrow> real \<Rightarrow> error + int" where
  "num_subdivision a clip_length =
     (if motion_resampling_framerate a = 0 then Inl ZeroDivisionError
      else if clip_length < unit_time a then Inr 1
      else if stride_time a = 0 then Inl ZeroDivisionError
      else Inr (\<lceil>float64 (float64 (clip_length - unit_time a) / stride_time a)\<rceil> + 1))"

text \<open>Line 46: \<^verbatim>\<open>num_subdivision = min(num_subdivision, 59)\<close>.\<close>

definition capped :: "int \<Rightarrow> int" where
  "capped n = min n 59"

subsection \<open>Text input of a window (lines 54-65)\<close>

text \<open>
  \<^verbatim>\<open>word_indices\<close> is an array of \<open>len(word_seq) + 2\<close> zeros; position \<open>0\<close> and the
  last position are written first, then the loop writes position \<open>w_i + 1\<close> for every
  word.
\<close>

definition word_indices :: "lang_model \<Rightarrow> word list \<Rightarrow> int list" where
  "word_indices lm word_seq =
     fold (\<lambda>(w_i, word) a. a[w_i + 1 := get_word_index lm (fst word)])
          (enumerate 0 word_seq)
          (((replicate (length word_seq + 2) 0)[0 := SOS_token lm])
               [length word_seq + 1 := EOS_token lm])"

subsection \<open>Smoothing the motion transition (lines 77-88)\<close>

definition frame_mul :: "frame \<Rightarrow> real \<Rightarrow> frame" where
  "frame_mul v c = map (\<lambda>x. x * c) v"

definition frame_div :: "frame \<Rightarrow> real \<Rightarrow> frame" where
  "frame_div v c = map (\<lambda>x. x / c) v"

definition frame_add :: "frame \<Rightarrow> frame \<Rightarrow> frame" where
  "frame_add u v = map2 (+) u v"

text \<open>Line 86: \<^verbatim>\<open>prev * (n - j) / (n + 1) + next * (j + 1) / (n + 1)\<close>.\<close>

definition blend_frame :: "nat \<Rightarrow> nat \<Rightarrow> frame \<Rightarrow> frame \<Rightarrow> frame" where
  "blend_frame n j prev next =
     frame_add (frame_div (frame_mul prev (real n - real j)) (real n + 1))
               (frame_div (frame_mul next (real j + 1)) (real n + 1))"

text \<open>
  The loop \<^verbatim>\<open>for j in range(len(last_poses))\<close>, over the remaining indices: it reads
  \<^verbatim>\<open>last_poses[j]\<close> and \<^verbatim>\<open>out_seq[j]\<close> and writes \<^verbatim>\<open>out_seq[j]\<close> in place.
  \<^verbatim>\<open>out_seq[j]\<close> raises IndexError when \<open>out_seq\<close> has no frame \<open>j\<close>.
\<close>

fun blend_loop :: "matrix \<Rightarrow> nat list \<Rightarrow> matrix \<Rightarrow> error + matrix" where
  "blend_loop last_poses [] out_seq = Inr out_seq"
| "blend_loop last_poses (j # js) out_seq =
     (if j < length out_seq then
        (let n = length last_poses;
             prev = last_poses ! j;
             next = out_seq ! j
         in blend_loop last_poses js (out_seq[j := blend_frame n j prev next]))
      else Inl IndexError)"

text \<open>
  Lines 78-88: the new history and the new window's frames as they are appended.
\<close>

definition smooth_transition ::
  "nat \<Rightarrow> matrix list \<Rightarrow> matrix \<Rightarrow> error + (matrix list \<times> matrix)" where
  "smooth_transition n_pre out_list out_seq =
     (if length out_list > 0 then
        (let last_poses = slice_last n_pre (last out_list);
             out_list' = butlast out_list @ [slice_but_last n_pre (last out_list)]
         in case blend_loop last_poses [0..<length last_poses] out_seq of
              Inl e \<Rightarrow> Inl e
            | Inr out_seq' \<Rightarrow> Inr (out_list' @ [out_seq'], out_seq'))
      else Inr (out_list @ [out_seq], out_seq))"

subsection \<open>The window loop (lines 48-88)\<close>

text \<open>
  The variables the loop carries. \<open>out_poses\<close> is the decoder's last output tensor
  (\<^verbatim>\<open>None\<close> before the first window), \<open>calls\<close> the decoder invocations made so far.
\<close>

record loop_state =
  out_list :: "matrix list"
  out_poses :: "matrix option"
  pre_seq :: matrix
  calls :: "call list"

text \<open>
  \<^verbatim>\<open>out_seq = out_poses[0, :, :].data.cpu().numpy()\<close>: on the CPU device \<^verbatim>\<open>.cpu()\<close>
  returns the tensor itself and \<^verbatim>\<open>.numpy()\<close> shares its memory, so the smoothing
  loop's writes to \<open>out_seq\<close> are writes to \<open>out_poses\<close>; on a CUDA device \<^verbatim>\<open>.cpu()\<close>
  copies and \<open>out_poses\<close> keeps the raw output. \<open>on_cpu\<close> is the module's \<^verbatim>\<open>device\<close>
  choice (\<^verbatim>\<open>torch.cuda.is_available()\<close> is false).
\<close>

definition after_write :: "bool \<Rightarrow> matrix \<Rightarrow> matrix \<Rightarrow> matrix" where
  "after_write on_cpu raw out_seq = (if on_cpu then out_seq else raw)"

text \<open>One iteration of the loop for window \<open>i\<close>. An exception carries the calls made.\<close>

definition window_body ::
  "args \<Rightarrow> pose_decoder \<Rightarrow> lang_model \<Rightarrow> word list \<Rightarrow> words_in_time_range \<Rightarrow> bool \<Rightarrow>
   nat \<Rightarrow> loop_state \<Rightarrow> (error \<times> call list) + loop_state" where
  "window_body a pose_decoder lm words get_words_in_time_range on_cpu i st =
     (let start_time = float64 (real i * stride_time a);
          end_time = float64 (start_time + unit_time a);
          word_seq = get_words_in_time_range words start_time end_time;
          in_text = word_indices lm word_seq
      in case (if i > 0 then
                 (case out_poses st of
                    None \<Rightarrow> Inl AttributeError
                  | Some t \<Rightarrow> setitem_pre_seq (n_pre_poses a) (slice_last (n_pre_poses a) t))
               else Inr (pre_seq st)) of
           Inl e \<Rightarrow> Inl (e, calls st)
         | Inr pre \<Rightarrow>
             (let words_lengths = length in_text;
                  cs = calls st @ [(in_text, words_lengths, pre)]
              in case pose_decoder in_text words_lengths pre of
                   Inl e \<Rightarrow> Inl (e, cs)
                 | Inr raw \<Rightarrow>
                     (case smooth_transition (n_pre_poses a) (out_list st) raw of
                        Inl e \<Rightarrow> Inl (e, cs)
                      | Inr (out_list', out_seq) \<Rightarrow>
                          Inr \<lparr>out_list = out_list',
                               out_poses = Some (after_write on_cpu raw out_seq),
                               pre_seq = pre,
                               calls = cs\<rparr>)))"

text \<open>\<^verbatim>\<open>for i in range(0, num_subdivision)\<close>, over the remaining indices.\<close>

fun for_windows ::
  "(nat \<Rightarrow> loop_state \<Rightarrow> (error \<times> call list) + loop_state) \<Rightarrow> nat list \<Rightarrow> loop_state \<Rightarrow>
   (error \<times> call list) + loop_state" where
  "for_windows body [] st = Inr st"
| "for_windows body (i # is) st =
     (case body i st of
        Inl e \<Rightarrow> Inl e
      | Inr st' \<Rightarrow> for_windows body is st')"

subsection \<open>generate_gestures\<close>

text \<open>
  Lines 90-94: with \<open>verbose\<close> the average time is printed, a division by
  \<open>num_subdivision\<close>; \<^verbatim>\<open>np.vstack\<close> raises ValueError on an empty list.
\<close>

definition aggregate :: "bool \<Rightarrow> int \<Rightarrow> loop_state \<Rightarrow> call list \<times> (error + matrix)" where
  "aggregate verbose n st =
     (if verbose \<and> n = 0 then (calls st, Inl ZeroDivisionError)
      else if out_list st = [] then (calls st, Inl ValueError)
      else (calls st, Inr (concat (out_list st))))"

definition generate_gestures ::
  "args \<Rightarrow> pose_decoder \<Rightarrow> lang_model \<Rightarrow> words_in_time_range \<Rightarrow> bool \<Rightarrow>
   word list \<Rightarrow> seed option \<Rightarrow> bool \<Rightarrow> call list \<times> (error + matrix)" where
  "generate_gestures a pose_decoder lm get_words_in_time_range on_cpu words seed_seq verbose =
     (if words = [] then ([], Inl IndexError)
      else
        (let clip_length = snd (snd (last words))
         in case initial_pre_seq a seed_seq of
              Inl e \<Rightarrow> ([], Inl e)
            | Inr pre \<Rightarrow>
                (case num_subdivision a clip_length of
                   Inl e \<Rightarrow> ([], Inl e)
                 | Inr n0 \<Rightarrow>
                     (let n = capped n0
                      in case for_windows
                                (window_body a pose_decoder lm words get_words_in_time_range on_cpu)
                                [0..<nat n]
                                \<lparr>out_list = [], out_poses = None, pre_seq = pre, calls = []\<rparr> of
                           Inl (e, cs) \<Rightarrow> (cs, Inl e)
                         | Inr st \<Rightarrow> aggregate verbose n st))))"

subsection \<open>Unnormalisation (main, lines 153-157)\<close>

text \<open>
  \<^verbatim>\<open>np.multiply(out_poses, std)\<close> and \<^verbatim>\<open>+ mean\<close> combine every frame with a vector.
  numpy pairs the channels when the two lengths agree, stretches a side of length one,
  and raises ValueError otherwise.
\<close>

definition np_broadcast :: "(real \<Rightarrow> real \<Rightarrow> real) \<Rightarrow> frame \<Rightarrow> frame \<Rightarrow> error + frame" where
  "np_broadcast f u v =
     (if length u = length v then Inr (map2 f u v)
      else if length v = 1 then Inr (map (\<lambda>x. f x (hd v)) u)
      else if length u = 1 then Inr (map (\<lambda>y. f (hd u) y) v)
      else Inl ValueError)"

fun np_rows :: "(real \<Rightarrow> real \<Rightarrow> real) \<Rightarrow> matrix \<Rightarrow> frame \<Rightarrow> error + matrix" where
  "np_rows f [] v = Inr []"
| "np_rows f (r # rs) v =
     (case np_broadcast f r v of
        Inl e \<Rightarrow> Inl e
      | Inr r' \<Rightarrow> (case np_rows f rs v of Inl e \<Rightarrow> Inl e | Inr rs' \<Rightarrow> Inr (r' # rs')))"

text \<open>\<^verbatim>\<open>np.clip(std, a_min=0.01, a_max=None)\<close>.\<close>

definition clip_std :: "frame \<Rightarrow> frame" where
  "clip_std std = map (\<lambda>s. max s (1 / 100)) std"

definition unnormalize :: "matrix \<Rightarrow> frame \<Rightarrow> frame \<Rightarrow> error + matrix" where
  "unnormalize poses mean std =
     (case np_rows (*) poses (clip_std std) of
        Inl e \<Rightarrow> Inl e
      | Inr scaled \<Rightarrow> np_rows (+) scaled mean)"

text \<open>
  Lines 150-164 of \<^verbatim>\<open>main\<close>: inference on the word list with the default seed and
  verbosity, unnormalisation, then \<^verbatim>\<open>make_mocap_data\<close> and \<^verbatim>\<open>make_bvh\<close>, which are
  external and stand here as one parameter. \<open>Inr f\<close> is the file written; an exception
  leaves before the write.
\<close>

definition main ::
  "args \<Rightarrow> pose_decoder \<Rightarrow> lang_model \<Rightarrow> words_in_time_range \<Rightarrow> bool \<Rightarrow>
   (matrix \<Rightarrow> error + 'f) \<Rightarrow> word list \<Rightarrow> error + 'f" where
  "main a generator lm get_words_in_time_range on_cpu make_bvh word_list =
     (case snd (generate_gestures a generator lm get_words_in_time_range on_cpu
                  word_list None True) of
        Inl e \<Rightarrow> Inl e
      | Inr poses \<Rightarrow>
          (case unnormalize poses (data_mean a) (data_std a) of
             Inl e \<Rightarrow> Inl e
           | Inr poses' \<Rightarrow> make_bvh poses'))"

subsection \<open>Notions used in the statements\<close>

text \<open>The seed frames of an invocation, and what the decoder answered to it.\<close>

definition seed_of :: "call \<Rightarrow> matrix" where
  "seed_of c = snd (snd c)"

definition decoder_on :: "pose_decoder \<Rightarrow> call \<Rightarrow> error + matrix" where
  "decoder_on pose_decoder c = pose_decoder (fst c) (fst (snd c)) (snd (snd c))"

text \<open>
  The decoder's contract: given the encoded words, their count and \<open>n_pre_poses\<close> seed
  frames it returns \<open>n_poses\<close> frames.
\<close>

definition honours_contract :: "args \<Rightarrow> pose_decoder \<Rightarrow> bool" where
  "honours_contract a pose_decoder \<longleftrightarrow>
     (\<forall>t p. length p = n_pre_poses a \<longrightarrow>
        (\<exists>raw. pose_decoder t (length t) p = Inr raw \<and> length raw = n_poses a))"

text \<open>
  A seed sequence, when one is given, has at least \<open>n_pre_poses\<close> frames, and its first
  \<open>n_pre_poses\<close> frames are not the empty slice of a list.
\<close>

definition seed_fits :: "args \<Rightarrow> seed option \<Rightarrow> bool" where
  "seed_fits a seed_seq \<longleftrightarrow>
     (case seed_seq of
        None \<Rightarrow> True
      | Some sd \<Rightarrow> n_pre_poses a \<le> length (seed_frames sd) \<and>
                  (is_list sd \<longrightarrow> 1 \<le> n_pre_poses a))"

text \<open>The seed of the first window, when the seed fits.\<close>

definition first_seed :: "args \<Rightarrow> seed option \<Rightarrow> matrix" where
  "first_seed a seed_seq =
     (case seed_seq of
        None \<Rightarrow> replicate (n_pre_poses a) (data_mean a)
      | Some sd \<Rightarrow> take (n_pre_poses a) (seed_frames sd))"

text \<open>What holds of the loop's variables before window \<open>i\<close> when the decoder honours its contract.\<close>

definition window_inv :: "args \<Rightarrow> nat \<Rightarrow> loop_state \<Rightarrow> bool" where
  "window_inv a i st \<longleftrightarrow>
     length (calls st) = i \<and> length (pre_seq st) = n_pre_poses a \<and>
     (if i = 0 then out_list st = []
      else out_list st \<noteq> [] \<and> length (last (out_list st)) = n_poses a \<and>
           length (concat (out_list st)) = n_poses a + (i - 1) * (n_poses a - n_pre_poses a) \<and>
           (\<exists>t. out_poses st = Some t \<and> length t = n_poses a))"

text \<open>
  What holds of the recorded invocations: every seed has \<open>n_pre_poses\<close> frames, the first
  is \<open>pre0\<close>, each later one is the tail of the decoder's answer to the invocation before
  it, and the tail of \<open>out_poses\<close> is the tail of the last answer.
\<close>

definition seed_inv :: "args \<Rightarrow> pose_decoder \<Rightarrow> matrix \<Rightarrow> loop_state \<Rightarrow> bool" where
  "seed_inv a pose_decoder pre0 st \<longleftrightarrow>
     (\<forall>k<length (calls st). length (seed_of (calls st ! k)) = n_pre_poses a) \<and>
     (if calls st = [] then pre_seq st = pre0
      else seed_of (calls st ! 0) = pre0 \<and>
           (\<exists>raw t. decoder_on pose_decoder (last (calls st)) = Inr raw \<and>
              length raw = n_poses a \<and> out_poses st = Some t \<and>
              drop (n_poses a - n_pre_poses a) t = drop (n_poses a - n_pre_poses a) raw)) \<and>
     (\<forall>k. Suc k < length (calls st) \<longrightarrow>
        (\<exists>raw. decoder_on pose_decoder (calls st ! k) = Inr raw \<and>
           length raw = n_poses a \<and>
           seed_of (calls st ! Suc k) = drop (n_poses a - n_pre_poses a) raw))"

text \<open>Lines 51-62: the encoded words of window \<open>i\<close>.\<close>

definition window_text :: "args \<Rightarrow> lang_model \<Rightarrow> words_in_time_range \<Rightarrow> word list \<Rightarrow> nat \<Rightarrow> int list" where
  "window_text a lm gw words i =
     word_indices lm (gw words (float64 (real i * stride_time a))
                        (float64 (float64 (real i * stride_time a) + unit_time a)))"

text \<open>Invocation \<open>k\<close> carries the words of window \<open>k\<close> and their count.\<close>

definition texts_inv :: "args \<Rightarrow> lang_model \<Rightarrow> words_in_time_range \<Rightarrow> word list \<Rightarrow> loop_state \<Rightarrow> bool" where
  "texts_inv a lm gw words st \<longleftrightarrow>
     (\<forall>k<length (calls st).
        fst (calls st ! k) = window_text a lm gw words k \<and>
        fst (snd (calls st ! k)) = length (window_text a lm gw words k))"

subsection \<open>Concrete inputs for the examples\<close>

text \<open>
  A word indexer for the examples (the words that start inside the window), a vocabulary
  that knows one word, a decoder that answers every invocation with the same frames, and
  a decoder that accepts one seed only.
\<close>

definition words_starting_in :: words_in_time_range where
  "words_starting_in ws s e = filter (\<lambda>w. s \<le> fst (snd w) \<and> fst (snd w) < e) ws"

definition small_vocab :: lang_model where
  "small_vocab = \<lparr>SOS_token = 1, EOS_token = 2, UNK_token = 0,
                  word2index = (\<lambda>w. if w = ''hello'' then Some 7 else None)\<rparr>"

definition constant_decoder :: "matrix \<Rightarrow> pose_decoder" where
  "constant_decoder m t l p = Inr m"

definition picky_decoder :: "matrix \<Rightarrow> matrix \<Rightarrow> pose_decoder" where
  "picky_decoder seed m t l p = (if p = seed then Inr m else Inl RuntimeError)"

definition config :: "nat \<Rightarrow> nat \<Rightarrow> real \<Rightarrow> args" where
  "config n_all n_pre rate =
     \<lparr>n_poses = n_all, n_pre_poses = n_pre, motion_resampling_framerate = rate,
      data_mean = [0], data_std = [1]\<rparr>"

section \<open>Properties\<close>

subsection \<open>Slices, assignment and the smoothing loop\<close>

lemma setitem_pre_seq_length: "setitem_pre_seq r src = Inr p \<Longrightarrow> length p = r"
  by (auto simp: setitem_pre_seq_def split: if_splits)

lemma for_windows_upt_invariant:
  assumes "P k st"
      and "\<And>i s. k \<le> i \<Longrightarrow> i < n \<Longrightarrow> P i s \<Longrightarrow> \<exists>s'. body i s = Inr s' \<and> P (Suc i) s'"
      and "k \<le> n"
    shows "\<exists>s'. for_windows body [k..<n] st = Inr s' \<and> P n s'"
  using assms
proof (induction "n - k" arbitrary: k st)
  case 0
  then show ?case by simp
next
  case (Suc d)
  then have kn: "k < n" by simp
  from Suc.prems(2)[OF le_refl kn Suc.prems(1)] obtain s1 where
    s1: "body k st = Inr s1" "P (Suc k) s1" by blast
  have "\<exists>s'. for_windows body [Suc k..<n] s1 = Inr s' \<and> P n s'"
  proof (rule Suc.hyps(1))
    show "d = n - Suc k" using Suc.hyps(2) by simp
    show "P (Suc k) s1" by (rule s1)
    show "Suc k \<le> n" using kn by simp
    show "\<And>i s. Suc k \<le> i \<Longrightarrow> i < n \<Longrightarrow> P i s \<Longrightarrow> \<exists>s'. body i s = Inr s' \<and> P (Suc i) s'"
      using Suc.prems(2) by simp
  qed
  then show ?case
    using s1 kn by (simp add: upt_conv_Cons)
qed

lemma slice_last_tail: "0 < n \<Longrightarrow> slice_last n xs = drop (length xs - n) xs"
  by (simp add: slice_last_def)

lemma slice_but_last_head: "0 < n \<Longrightarrow> slice_but_last n xs = take (length xs - n) xs"
  by (simp add: slice_but_last_def)

lemma blend_loop_sound:
  "\<forall>j\<in>set js. j < length s \<Longrightarrow> distinct js \<Longrightarrow>
   \<exists>s'. blend_loop lp js s = Inr s' \<and> length s' = length s \<and>
        (\<forall>k<length s. s' ! k =
           (if k \<in> set js then blend_frame (length lp) k (lp ! k) (s ! k) else s ! k))"
proof (induction js arbitrary: s)
  case Nil
  then show ?case by simp
next
  case (Cons j js)
  let ?s1 = "s[j := blend_frame (length lp) j (lp ! j) (s ! j)]"
  have "\<forall>i\<in>set js. i < length ?s1" and "distinct js"
    using Cons.prems by simp_all
  from Cons.IH[OF this] obtain s' where
    run: "blend_loop lp js ?s1 = Inr s'" and len: "length s' = length ?s1" and
    nth: "\<forall>k<length ?s1. s' ! k =
            (if k \<in> set js then blend_frame (length lp) k (lp ! k) (?s1 ! k) else ?s1 ! k)"
    by blast
  have j: "j < length s" "j \<notin> set js"
    using Cons.prems by simp_all
  have "blend_loop lp (j # js) s = Inr s'"
    using run j by (simp add: Let_def)
  moreover have "length s' = length s"
    using len by simp
  moreover have "\<forall>k<length s. s' ! k =
       (if k \<in> set (j # js) then blend_frame (length lp) k (lp ! k) (s ! k) else s ! k)"
  proof (intro allI impI)
    fix k assume k: "k < length s"
    show "s' ! k = (if k \<in> set (j # js) then blend_frame (length lp) k (lp ! k) (s ! k) else s ! k)"
    proof (cases "k = j")
      case True
      then show ?thesis using nth k j by simp
    next
      case False
      then show ?thesis using nth k by simp
    qed
  qed
  ultimately show ?case by blast
qed

lemma blend_loop_range:
  assumes "m \<le> length s"
  shows "\<exists>s'. blend_loop lp [0..<m] s = Inr s' \<and> length s' = length s \<and>
           (\<forall>k<length s. s' ! k = (if k < m then blend_frame (length lp) k (lp ! k) (s ! k) else s ! k))"
  using blend_loop_sound[of "[0..<m]" s lp] assms by simp

lemma smooth_transition_first: "smooth_transition n [] raw = Inr ([raw], raw)"
  by (simp add: smooth_transition_def)

lemma smooth_transition_next:
  assumes "ol \<noteq> []" and "length (slice_last n (last ol)) \<le> length raw"
  shows "\<exists>b. smooth_transition n ol raw
               = Inr (butlast ol @ [slice_but_last n (last ol), b], b) \<and>
             length b = length raw \<and>
             (\<forall>k<length raw. b ! k =
                (if k < length (slice_last n (last ol))
                 then blend_frame (length (slice_last n (last ol))) k
                        (slice_last n (last ol) ! k) (raw ! k)
                 else raw ! k))"
proof -
  from blend_loop_range[OF assms(2), of "slice_last n (last ol)"] obtain b where
    "blend_loop (slice_last n (last ol)) [0..<length (slice_last n (last ol))] raw = Inr b"
    "length b = length raw"
    "\<forall>k<length raw. b ! k =
        (if k < length (slice_last n (last ol))
         then blend_frame (length (slice_last n (last ol))) k (slice_last n (last ol) ! k) (raw ! k)
         else raw ! k)"
    by blast
  then show ?thesis
    using assms(1) by (simp add: smooth_transition_def Let_def)
qed

text \<open>The first window under the contract.\<close>

lemma window_body_first:
  assumes C: "honours_contract a dec" and inv: "window_inv a 0 st"
  shows "\<exists>raw. dec (window_text a lm gw words 0)
                  (length (window_text a lm gw words 0)) (pre_seq st) = Inr raw \<and>
           length raw = n_poses a \<and>
           window_body a dec lm words gw cpu 0 st =
             Inr \<lparr>out_list = [raw], out_poses = Some (after_write cpu raw raw),
                  pre_seq = pre_seq st,
                  calls = calls st @ [(window_text a lm gw words 0,
                                       length (window_text a lm gw words 0),
                                       pre_seq st)]\<rparr>"
proof -
  have len: "length (pre_seq st) = n_pre_poses a" and ol: "out_list st = []"
    using inv by (simp_all add: window_inv_def)
  from C len obtain raw where
    raw: "dec (window_text a lm gw words 0)
              (length (window_text a lm gw words 0)) (pre_seq st) = Inr raw"
         "length raw = n_poses a"
    unfolding honours_contract_def by blast
  then show ?thesis
    using ol by (simp add: window_body_def window_text_def Let_def smooth_transition_first)
qed

text \<open>A later window under the contract.\<close>

lemma window_body_later:
  assumes C: "honours_contract a dec"
      and n: "1 \<le> n_pre_poses a" "n_pre_poses a \<le> n_poses a"
      and inv: "window_inv a i st" and i: "0 < i"
      and t: "out_poses st = Some t"
      and in_text_def: "in_text = window_text a lm gw words i"
      and pre_def: "pre = drop (n_poses a - n_pre_poses a) t"
      and tail_def: "tail = drop (n_poses a - n_pre_poses a) (last (out_list st))"
  shows "\<exists>raw b. dec in_text (length in_text) pre = Inr raw \<and>
           length raw = n_poses a \<and> length b = n_poses a \<and>
           (\<forall>k<n_poses a. b ! k =
              (if k < n_pre_poses a then blend_frame (n_pre_poses a) k (tail ! k) (raw ! k)
               else raw ! k)) \<and>
           window_body a dec lm words gw cpu i st =
             Inr \<lparr>out_list = butlast (out_list st) @
                                [take (n_poses a - n_pre_poses a) (last (out_list st)), b],
                  out_poses = Some (after_write cpu raw b),
                  pre_seq = pre,
                  calls = calls st @ [(in_text, length in_text, pre)]\<rparr>"
proof -
  from inv i t have ol: "out_list st \<noteq> []" and lastlen: "length (last (out_list st)) = n_poses a"
    and tlen: "length t = n_poses a"
    by (auto simp: window_inv_def)
  have pos: "0 < n_pre_poses a" using n by simp
  have sl_t: "slice_last (n_pre_poses a) t = pre"
    using pos tlen by (simp add: slice_last_tail pre_def)
  have prelen: "length pre = n_pre_poses a"
    using tlen n by (simp add: pre_def)
  have set_ok: "setitem_pre_seq (n_pre_poses a) (slice_last (n_pre_poses a) t) = Inr pre"
    using sl_t prelen by (simp add: setitem_pre_seq_def)
  from C prelen obtain raw where
    raw: "dec in_text (length in_text) pre = Inr raw" "length raw = n_poses a"
    unfolding honours_contract_def by blast
  have sl_last: "slice_last (n_pre_poses a) (last (out_list st)) = tail"
    using pos lastlen by (simp add: slice_last_tail tail_def)
  have taillen: "length tail = n_pre_poses a"
    using lastlen n by (simp add: tail_def)
  have sbl: "slice_but_last (n_pre_poses a) (last (out_list st))
               = take (n_poses a - n_pre_poses a) (last (out_list st))"
    using pos lastlen by (simp add: slice_but_last_head)
  have "length (slice_last (n_pre_poses a) (last (out_list st))) \<le> length raw"
    using sl_last taillen raw(2) n by simp
  from smooth_transition_next[OF ol this] obtain b where
    b: "smooth_transition (n_pre_poses a) (out_list st) raw
          = Inr (butlast (out_list st) @
                   [take (n_poses a - n_pre_poses a) (last (out_list st)), b], b)"
       "length b = n_poses a"
       "\<forall>k<n_poses a. b ! k =
          (if k < n_pre_poses a then blend_frame (n_pre_poses a) k (tail ! k) (raw ! k)
           else raw ! k)"
    unfolding sl_last sbl taillen raw(2) by blast
  have "window_body a dec lm words gw cpu i st =
          Inr \<lparr>out_list = butlast (out_list st) @
                             [take (n_poses a - n_pre_poses a) (last (out_list st)), b],
               out_poses = Some (after_write cpu raw b),
               pre_seq = pre,
               calls = calls st @ [(in_text, length in_text, pre)]\<rparr>"
    using i t set_ok raw(1) b(1)
    by (simp add: window_body_def window_text_def Let_def in_text_def)
  with raw b(2,3) show ?thesis by blast
qed

subsection \<open>The loop under the decoder's contract\<close>

lemma length_concat_butlast:
  "ol \<noteq> [] \<Longrightarrow> length (concat ol) = length (concat (butlast ol)) + length (last ol)"
proof -
  assume "ol \<noteq> []"
  then have "concat ol = concat (butlast ol @ [last ol])" by simp
  then show ?thesis by (simp del: append_butlast_last_id)
qed

lemma window_body_inv:
  assumes C: "honours_contract a dec"
      and n: "1 \<le> n_pre_poses a" "n_pre_poses a \<le> n_poses a"
      and inv: "window_inv a i st"
  shows "\<exists>st'. window_body a dec lm words gw cpu i st = Inr st' \<and> window_inv a (Suc i) st'"
proof (cases "i = 0")
  case True
  from window_body_first[OF C inv[unfolded True], of lm gw words cpu] obtain raw where
    "length raw = n_poses a"
    "window_body a dec lm words gw cpu 0 st =
       Inr \<lparr>out_list = [raw], out_poses = Some (after_write cpu raw raw),
            pre_seq = pre_seq st,
            calls = calls st @ [(window_text a lm gw words 0,
                                 length (window_text a lm gw words 0),
                                 pre_seq st)]\<rparr>"
    by blast
  then show ?thesis
    using inv True by (simp add: window_inv_def after_write_def)
next
  case False
  then have i: "0 < i" by simp
  from inv i obtain t where t: "out_poses st = Some t" and tlen: "length t = n_poses a"
    and ol: "out_list st \<noteq> []" and lastlen: "length (last (out_list st)) = n_poses a"
    and total: "length (concat (out_list st))
                  = n_poses a + (i - 1) * (n_poses a - n_pre_poses a)"
    and ncalls: "length (calls st) = i"
    by (auto simp: window_inv_def)
  from window_body_later[OF C n inv i t refl refl refl, of lm gw words cpu] obtain raw b where
    raw: "length raw = n_poses a" and b: "length b = n_poses a" and
    step: "window_body a dec lm words gw cpu i st =
             Inr \<lparr>out_list = butlast (out_list st) @
                                [take (n_poses a - n_pre_poses a) (last (out_list st)), b],
                  out_poses = Some (after_write cpu raw b),
                  pre_seq = drop (n_poses a - n_pre_poses a) t,
                  calls = calls st @
                    [(window_text a lm gw words i,
                      length (window_text a lm gw words i),
                      drop (n_poses a - n_pre_poses a) t)]\<rparr>"
    by blast
  define d where "d = n_poses a - n_pre_poses a"
  have "length (concat (butlast (out_list st))) + n_poses a = n_poses a + (i - 1) * d"
    using length_concat_butlast[OF ol] lastlen total by (simp add: d_def)
  then have "length (concat (butlast (out_list st))) = (i - 1) * d"
    by simp
  moreover have "(i - 1) * d + d = i * d"
    using i by (cases i) simp_all
  moreover have "length (take d (last (out_list st))) = d"
    using lastlen by (simp add: d_def)
  ultimately have "length (concat (butlast (out_list st) @ [take d (last (out_list st)), b]))
                   = n_poses a + i * d"
    using b by simp
  then have "length (concat (butlast (out_list st) @
                      [take (n_poses a - n_pre_poses a) (last (out_list st)), b]))
                   = n_poses a + i * (n_poses a - n_pre_poses a)"
    by (simp only: d_def)
  then show ?thesis
    using step raw b tlen n ncalls by (simp add: window_inv_def after_write_def)
qed

lemma tail_after_write:
  assumes "length raw = m" and "length b = m"
      and "\<forall>k<m. b ! k = (if k < n then f k else raw ! k)"
      and "\<not> cpu \<or> 2 * n \<le> m"
  shows "drop (m - n) (after_write cpu raw b) = drop (m - n) raw"
proof (cases cpu)
  case False
  then show ?thesis by (simp add: after_write_def)
next
  case True
  with assms(4) have "2 * n \<le> m" by simp
  have "drop (m - n) b = drop (m - n) raw"
  proof (rule nth_equalityI)
    show "length (drop (m - n) b) = length (drop (m - n) raw)"
      using assms(1,2) by simp
    fix k assume "k < length (drop (m - n) b)"
    define idx where "idx = m - n + k"
    have idx: "idx < m" "\<not> idx < n"
      using \<open>k < length (drop (m - n) b)\<close> assms(2) \<open>2 * n \<le> m\<close> by (simp_all add: idx_def)
    from assms(3) idx have "b ! idx = raw ! idx"
      by simp
    moreover have "drop (m - n) b ! k = b ! idx" "drop (m - n) raw ! k = raw ! idx"
      using idx(1) assms(1,2) by (simp_all add: idx_def)
    ultimately show "drop (m - n) b ! k = drop (m - n) raw ! k"
      by simp
  qed
  then show ?thesis using True by (simp add: after_write_def)
qed

lemma window_body_seed_inv:
  assumes C: "honours_contract a dec"
      and n: "1 \<le> n_pre_poses a" "n_pre_poses a \<le> n_poses a"
      and apart: "\<not> cpu \<or> 2 * n_pre_poses a \<le> n_poses a"
      and inv: "window_inv a i st" and sinv: "seed_inv a dec pre0 st"
      and step: "window_body a dec lm words gw cpu i st = Inr st'"
  shows "seed_inv a dec pre0 st'"
proof (cases "i = 0")
  case True
  from inv True have nocalls: "calls st = []" and prelen: "length (pre_seq st) = n_pre_poses a"
    by (simp_all add: window_inv_def)
  with sinv have pre0: "pre_seq st = pre0" by (simp add: seed_inv_def)
  from window_body_first[OF C inv[unfolded True], of lm gw words cpu] step True obtain raw where
    raw: "dec (window_text a lm gw words 0)
              (length (window_text a lm gw words 0)) (pre_seq st) = Inr raw"
         "length raw = n_poses a" and
    st': "st' = \<lparr>out_list = [raw], out_poses = Some (after_write cpu raw raw),
            pre_seq = pre_seq st,
            calls = calls st @ [(window_text a lm gw words 0,
                                 length (window_text a lm gw words 0),
                                 pre_seq st)]\<rparr>"
    by auto
  show ?thesis
    using raw prelen pre0 nocalls
    by (simp add: st' seed_inv_def seed_of_def decoder_on_def after_write_def)
next
  case False
  then have i: "0 < i" by simp
  from inv i obtain t where t: "out_poses st = Some t" and tlen: "length t = n_poses a"
    and ncalls: "length (calls st) = i"
    by (auto simp: window_inv_def)
  let ?pre = "drop (n_poses a - n_pre_poses a) t"
  let ?txt = "window_text a lm gw words i"
  let ?c = "(?txt, length ?txt, ?pre)"
  from window_body_later[OF C n inv i t refl refl refl, of lm gw words cpu] step obtain raw b where
    raw: "dec ?txt (length ?txt) ?pre = Inr raw" "length raw = n_poses a" and
    b: "length b = n_poses a"
       "\<forall>k<n_poses a. b ! k =
          (if k < n_pre_poses a
           then blend_frame (n_pre_poses a) k
                  (drop (n_poses a - n_pre_poses a) (last (out_list st)) ! k) (raw ! k)
           else raw ! k)" and
    st': "st' = \<lparr>out_list = butlast (out_list st) @
                                [take (n_poses a - n_pre_poses a) (last (out_list st)), b],
                  out_poses = Some (after_write cpu raw b),
                  pre_seq = ?pre,
                  calls = calls st @ [?c]\<rparr>"
    by auto
  have ne: "calls st \<noteq> []" using ncalls i by auto
  from sinv ne obtain rawp where
    old_len: "\<forall>k<length (calls st). length (seed_of (calls st ! k)) = n_pre_poses a" and
    old_first: "seed_of (calls st ! 0) = pre0" and
    old_last: "decoder_on dec (last (calls st)) = Inr rawp" "length rawp = n_poses a"
              "?pre = drop (n_poses a - n_pre_poses a) rawp" and
    old_chain: "\<forall>k. Suc k < length (calls st) \<longrightarrow>
        (\<exists>raw. decoder_on dec (calls st ! k) = Inr raw \<and> length raw = n_poses a \<and>
           seed_of (calls st ! Suc k) = drop (n_poses a - n_pre_poses a) raw)"
    using t by (auto simp: seed_inv_def)
  have tail: "drop (n_poses a - n_pre_poses a) (after_write cpu raw b)
                = drop (n_poses a - n_pre_poses a) raw"
    by (rule tail_after_write[OF raw(2) b(1) b(2) apart])
  have prelen: "length ?pre = n_pre_poses a" using tlen n by simp
  have c1: "\<forall>k<length (calls st @ [?c]). length (seed_of ((calls st @ [?c]) ! k)) = n_pre_poses a"
    using old_len prelen by (auto simp: nth_append seed_of_def)
  have c2: "seed_of ((calls st @ [?c]) ! 0) = pre0"
    using old_first ne by (simp add: nth_append)
  have c3: "decoder_on dec (last (calls st @ [?c])) = Inr raw"
    using raw(1) by (simp add: decoder_on_def)
  have c4: "\<forall>k. Suc k < length (calls st @ [?c]) \<longrightarrow>
        (\<exists>raw. decoder_on dec ((calls st @ [?c]) ! k) = Inr raw \<and> length raw = n_poses a \<and>
           seed_of ((calls st @ [?c]) ! Suc k) = drop (n_poses a - n_pre_poses a) raw)"
  proof (intro allI impI)
    fix k assume k: "Suc k < length (calls st @ [?c])"
    show "\<exists>raw. decoder_on dec ((calls st @ [?c]) ! k) = Inr raw \<and> length raw = n_poses a \<and>
           seed_of ((calls st @ [?c]) ! Suc k) = drop (n_poses a - n_pre_poses a) raw"
    proof (cases "Suc k < length (calls st)")
      case True
      then show ?thesis using old_chain by (simp add: nth_append)
    next
      case False
      with k have eq: "Suc k = length (calls st)" by simp
      then have "k = length (calls st) - 1" by simp
      then have "(calls st @ [?c]) ! k = last (calls st)"
        using ne by (simp add: nth_append last_conv_nth)
      moreover have "(calls st @ [?c]) ! Suc k = ?c"
        using eq by (simp add: nth_append)
      ultimately show ?thesis
        using old_last by (simp add: seed_of_def)
    qed
  qed
  show ?thesis
    unfolding seed_inv_def st'
    using c1 c2 c3 c4 tail raw(2) by simp
qed

lemma initial_pre_seq_fits:
  "seed_fits a seed_seq \<Longrightarrow> initial_pre_seq a seed_seq = Inr (first_seed a seed_seq)"
  by (auto simp: seed_fits_def initial_pre_seq_def first_seed_def setitem_pre_seq_def min_def
           split: option.splits)

lemma initial_pre_seq_length:
  "initial_pre_seq a seed_seq = Inr pre0 \<Longrightarrow> length pre0 = n_pre_poses a"
  by (auto simp: initial_pre_seq_def dest: setitem_pre_seq_length split: option.splits if_splits)


lemma window_body_call:
  "window_body a dec lm words gw cpu i st = Inr st' \<Longrightarrow>
   \<exists>pre. calls st' = calls st @ [(window_text a lm gw words i,
                                  length (window_text a lm gw words i), pre)]"
  by (auto simp: window_body_def Let_def window_text_def
           split: sum.splits option.splits prod.splits if_splits)

lemma window_body_texts_inv:
  assumes "length (calls st) = i" "texts_inv a lm gw words st"
      and "window_body a dec lm words gw cpu i st = Inr st'"
  shows "texts_inv a lm gw words st'"
proof -
  from window_body_call[OF assms(3)] obtain pre where
    "calls st' = calls st @ [(window_text a lm gw words i,
                              length (window_text a lm gw words i), pre)]"
    by blast
  then show ?thesis
    using assms(1,2) by (auto simp: texts_inv_def nth_append less_Suc_eq)
qed

lemma loop_under_contract:
  assumes C: "honours_contract a dec"
      and n: "1 \<le> n_pre_poses a" "n_pre_poses a \<le> n_poses a"
      and pre0: "length pre0 = n_pre_poses a"
  shows "\<exists>st. for_windows (window_body a dec lm words gw cpu) [0..<m]
                \<lparr>out_list = [], out_poses = None, pre_seq = pre0, calls = []\<rparr> = Inr st \<and>
              window_inv a m st \<and> texts_inv a lm gw words st \<and>
              (\<not> cpu \<or> 2 * n_pre_poses a \<le> n_poses a \<longrightarrow> seed_inv a dec pre0 st)"
proof -
  let ?P = "\<lambda>i st. window_inv a i st \<and> texts_inv a lm gw words st \<and>
                     (\<not> cpu \<or> 2 * n_pre_poses a \<le> n_poses a \<longrightarrow> seed_inv a dec pre0 st)"
  let ?init = "\<lparr>out_list = [], out_poses = None, pre_seq = pre0, calls = []\<rparr>"
  have start: "?P 0 ?init"
    using pre0 by (simp add: window_inv_def seed_inv_def texts_inv_def)
  have step: "\<exists>s'. window_body a dec lm words gw cpu i s = Inr s' \<and> ?P (Suc i) s'"
    if "?P i s" for i s
  proof -
    from that have inv: "window_inv a i s" and texts: "texts_inv a lm gw words s" by simp_all
    from window_body_inv[OF C n inv, where lm=lm and words=words and gw=gw and cpu=cpu]
    obtain s' where s': "window_body a dec lm words gw cpu i s = Inr s'" "window_inv a (Suc i) s'"
      by blast
    have "length (calls s) = i" using inv by (simp add: window_inv_def)
    from window_body_texts_inv[OF this texts s'(1)] have texts': "texts_inv a lm gw words s'" .
    have "seed_inv a dec pre0 s'" if apart: "\<not> cpu \<or> 2 * n_pre_poses a \<le> n_poses a"
    proof -
      from \<open>?P i s\<close> apart have "seed_inv a dec pre0 s" by simp
      from window_body_seed_inv[OF C n apart inv this s'(1)] show ?thesis .
    qed
    with s' texts' show ?thesis by blast
  qed
  have "\<exists>s'. for_windows (window_body a dec lm words gw cpu) [0..<m] ?init = Inr s' \<and> ?P m s'"
    by (rule for_windows_upt_invariant[where P = ?P, OF start]) (use step in simp_all)
  then show ?thesis by blast
qed

lemma generate_gestures_under_contract:
  assumes C: "honours_contract a dec"
      and n: "1 \<le> n_pre_poses a" "n_pre_poses a \<le> n_poses a"
      and words: "words \<noteq> []"
      and init: "initial_pre_seq a seed_seq = Inr pre0"
      and n0: "num_subdivision a (snd (snd (last words))) = Inr n0"
  shows "\<exists>st. generate_gestures a dec lm gw cpu words seed_seq verbose
                = aggregate verbose (capped n0) st \<and>
              window_inv a (nat (capped n0)) st \<and> texts_inv a lm gw words st \<and>
              (\<not> cpu \<or> 2 * n_pre_poses a \<le> n_poses a \<longrightarrow> seed_inv a dec pre0 st)"
proof -
  have len: "length pre0 = n_pre_poses a"
    by (rule initial_pre_seq_length[OF init])
  from loop_under_contract[OF C n len, where lm=lm and words=words and gw=gw and cpu=cpu
         and m="nat (capped n0)"]
  obtain st where
    st: "for_windows (window_body a dec lm words gw cpu) [0..<nat (capped n0)]
           \<lparr>out_list = [], out_poses = None, pre_seq = pre0, calls = []\<rparr> = Inr st"
        "window_inv a (nat (capped n0)) st"
        "texts_inv a lm gw words st"
        "\<not> cpu \<or> 2 * n_pre_poses a \<le> n_poses a \<longrightarrow> seed_inv a dec pre0 st"
    by blast
  have "generate_gestures a dec lm gw cpu words seed_seq verbose = aggregate verbose (capped n0) st"
    using words init n0 st(1) by (simp add: generate_gestures_def Let_def)
  with st(2,3,4) show ?thesis by blast
qed


lemma frames_under_contract:
  assumes "honours_contract a dec" "1 \<le> n_pre_poses a" "n_pre_poses a \<le> n_poses a"
          "words \<noteq> []" "seed_fits a seed_seq"
          "num_subdivision a (snd (snd (last words))) = Inr n0"
      and pos: "1 \<le> capped n0"
  shows "\<exists>out. snd (generate_gestures a dec lm gw cpu words seed_seq verbose) = Inr out \<and>
               length out = n_poses a + (nat (capped n0) - 1) * (n_poses a - n_pre_poses a)"
proof -
  from generate_gestures_under_contract[OF assms(1-4) initial_pre_seq_fits[OF assms(5)] assms(6),
         where lm=lm and gw=gw and cpu=cpu and verbose=verbose]
  obtain st where st: "generate_gestures a dec lm gw cpu words seed_seq verbose
                     = aggregate verbose (capped n0) st"
                  "window_inv a (nat (capped n0)) st"
    by blast
  have "nat (capped n0) \<noteq> 0" "capped n0 \<noteq> 0" using pos by simp_all
  with st show ?thesis
    by (simp add: aggregate_def window_inv_def)
qed


text \<open>Rounding keeps the sign.\<close>

lemma round_half_even_nonneg: "0 \<le> y \<Longrightarrow> 0 \<le> round_half_even y"
  by (auto simp: round_half_even_def Let_def)

lemma pow2_pos: "0 < pow2 q"
  by (simp add: pow2_def)

lemma float64_nonneg: "0 \<le> x \<Longrightarrow> 0 \<le> float64 x"
  by (simp add: float64_def Let_def round_half_even_nonneg pow2_pos less_imp_le)

lemma float64_nonpos: "x \<le> 0 \<Longrightarrow> float64 x \<le> 0"
proof (cases "x = 0")
  case True
  then show ?thesis by (simp add: float64_def)
next
  case False
  assume "x \<le> 0"
  with False have neg: "sgn x = - 1" by simp
  have "0 \<le> real_of_int (round_half_even (\<bar>x\<bar> / pow2 q)) * pow2 q" for q
    using round_half_even_nonneg[of "\<bar>x\<bar> / pow2 q"] pow2_pos[of q] by simp
  then show ?thesis
    using False neg by (simp add: float64_def Let_def)
qed

subsection \<open>Runs in general\<close>

lemma window_body_calls:
  "case window_body a dec lm words gw cpu i st of
     Inl (e, cs) \<Rightarrow> length cs \<le> Suc (length (calls st))
   | Inr st' \<Rightarrow> length (calls st') = Suc (length (calls st))"
  by (simp add: window_body_def Let_def split: sum.split option.split prod.split)

lemma for_windows_calls:
  "case for_windows (window_body a dec lm words gw cpu) js st of
     Inl (e, cs) \<Rightarrow> length cs \<le> length (calls st) + length js
   | Inr st' \<Rightarrow> length (calls st') = length (calls st) + length js"
proof (induction js arbitrary: st)
  case Nil
  then show ?case by simp
next
  case (Cons i js)
  show ?case
  proof (cases "window_body a dec lm words gw cpu i st")
    case (Inl ec)
    then show ?thesis
      using window_body_calls[where a=a and dec=dec and lm=lm and words=words and gw=gw and cpu=cpu and i=i and st=st]
      by (auto split: prod.splits)
  next
    case (Inr s1)
    then have "length (calls s1) = Suc (length (calls st))"
      using window_body_calls[where a=a and dec=dec and lm=lm and words=words and gw=gw and cpu=cpu and i=i and st=st] by simp
    then show ?thesis
      using Cons.IH[where st=s1] Inr by (auto split: sum.splits prod.splits)
  qed
qed

lemma window_body_outcomes:
  assumes "\<forall>c\<in>set (calls st). \<not> isl (decoder_on dec c)"
  shows "case window_body a dec lm words gw cpu i st of
           Inl (e, cs) \<Rightarrow>
             (\<forall>c\<in>set cs. \<not> isl (decoder_on dec c)) \<or>
             (cs \<noteq> [] \<and> decoder_on dec (last cs) = Inl e \<and>
              (\<forall>c\<in>set (butlast cs). \<not> isl (decoder_on dec c)))
         | Inr st' \<Rightarrow> (\<forall>c\<in>set (calls st'). \<not> isl (decoder_on dec c))"
  using assms
  by (auto simp: window_body_def Let_def decoder_on_def split: sum.split option.split prod.split)

lemma for_windows_outcomes:
  assumes "\<forall>c\<in>set (calls st). \<not> isl (decoder_on dec c)"
  shows "case for_windows (window_body a dec lm words gw cpu) js st of
           Inl (e, cs) \<Rightarrow>
             (\<forall>c\<in>set cs. \<not> isl (decoder_on dec c)) \<or>
             (cs \<noteq> [] \<and> decoder_on dec (last cs) = Inl e \<and>
              (\<forall>c\<in>set (butlast cs). \<not> isl (decoder_on dec c)))
         | Inr st' \<Rightarrow> (\<forall>c\<in>set (calls st'). \<not> isl (decoder_on dec c))"
  using assms
proof (induction js arbitrary: st)
  case Nil
  then show ?case by simp
next
  case (Cons i js)
  show ?case
  proof (cases "window_body a dec lm words gw cpu i st")
    case (Inl ec)
    then show ?thesis
      using window_body_outcomes[OF Cons.prems, where a=a and lm=lm and words=words and gw=gw and cpu=cpu and i=i] by simp
  next
    case (Inr s1)
    then have "\<forall>c\<in>set (calls s1). \<not> isl (decoder_on dec c)"
      using window_body_outcomes[OF Cons.prems, where a=a and lm=lm and words=words and gw=gw and cpu=cpu and i=i] by simp
    from Cons.IH[OF this] show ?thesis
      using Inr by simp
  qed
qed

text \<open>The outcome of a whole run, in terms of the decoder's answers.\<close>

lemma generate_gestures_outcomes:
  "(\<forall>c\<in>set (fst (generate_gestures a dec lm gw cpu words seed_seq verbose)).
       \<not> isl (decoder_on dec c)) \<or>
   (\<exists>e. snd (generate_gestures a dec lm gw cpu words seed_seq verbose) = Inl e \<and>
        fst (generate_gestures a dec lm gw cpu words seed_seq verbose) \<noteq> [] \<and>
        decoder_on dec (last (fst (generate_gestures a dec lm gw cpu words seed_seq verbose)))
          = Inl e \<and>
        (\<forall>c\<in>set (butlast (fst (generate_gestures a dec lm gw cpu words seed_seq verbose))).
            \<not> isl (decoder_on dec c)))"
proof (cases "words = []")
  case True
  then show ?thesis by (simp add: generate_gestures_def)
next
  case False
  show ?thesis
  proof (cases "initial_pre_seq a seed_seq")
    case (Inl e)
    then show ?thesis using False by (simp add: generate_gestures_def)
  next
    case pre: (Inr pre)
    show ?thesis
    proof (cases "num_subdivision a (snd (snd (last words)))")
      case (Inl e)
      then show ?thesis using False pre by (simp add: generate_gestures_def)
    next
      case n0: (Inr n0)
      let ?init = "\<lparr>out_list = [], out_poses = None, pre_seq = pre, calls = []\<rparr>"
      have init: "\<forall>c\<in>set (calls ?init). \<not> isl (decoder_on dec c)"
        by simp
      note loop = for_windows_outcomes[OF init, where a=a and lm=lm and words=words and gw=gw
                    and cpu=cpu and js="[0..<nat (capped n0)]"]
      show ?thesis
      proof (cases "for_windows (window_body a dec lm words gw cpu) [0..<nat (capped n0)] ?init")
        case (Inl ec)
        obtain e cs where ec: "ec = (e, cs)" by (cases ec)
        have G: "generate_gestures a dec lm gw cpu words seed_seq verbose = (cs, Inl e)"
          using False pre n0 Inl ec by (simp add: generate_gestures_def Let_def)
        from loop Inl ec show ?thesis
          unfolding G by auto
      next
        case (Inr st)
        have G: "fst (generate_gestures a dec lm gw cpu words seed_seq verbose) = calls st"
          using False pre n0 Inr by (simp add: generate_gestures_def Let_def aggregate_def)
        from loop Inr show ?thesis
          unfolding G by simp
      qed
    qed
  qed
qed

lemma generate_gestures_calls_le:
  assumes "num_subdivision a (snd (snd (last words))) = Inr n0"
  shows "length (fst (generate_gestures a dec lm gw cpu words seed_seq verbose)) \<le> nat (capped n0)"
proof (cases "words = []")
  case True
  then show ?thesis by (simp add: generate_gestures_def)
next
  case False
  show ?thesis
  proof (cases "initial_pre_seq a seed_seq")
    case (Inl e)
    then show ?thesis using False by (simp add: generate_gestures_def)
  next
    case (Inr pre)
    show ?thesis
      using for_windows_calls[where a=a and dec=dec and lm=lm and words=words and gw=gw and cpu=cpu
              and js="[0..<nat (capped n0)]"
              and st="\<lparr>out_list = [], out_poses = None, pre_seq = pre, calls = []\<rparr>"]
            False Inr assms
      by (auto simp: generate_gestures_def Let_def aggregate_def split: sum.splits prod.splits)
  qed
qed

subsection \<open>Encoding and unnormalisation\<close>

lemma fold_word_indices:
  "length pre = Suc m \<Longrightarrow> length zs = length ws \<Longrightarrow>
   fold (\<lambda>(w_i, word) a. a[w_i + 1 := get_word_index lm (fst word)]) (enumerate m ws)
        (pre @ zs @ post)
   = pre @ map (\<lambda>w. get_word_index lm (fst w)) ws @ post"
proof (induction ws arbitrary: m pre zs)
  case Nil
  then show ?case by simp
next
  case (Cons w ws)
  then obtain z zs' where zs: "zs = z # zs'" and len: "length zs' = length ws"
    by (cases zs) auto
  have upd: "(pre @ zs @ post)[m + 1 := get_word_index lm (fst w)]
             = (pre @ [get_word_index lm (fst w)]) @ zs' @ post"
    using Cons.prems(1) by (simp add: zs list_update_append)
  have "length (pre @ [get_word_index lm (fst w)]) = Suc (Suc m)"
    using Cons.prems(1) by simp
  from Cons.IH[OF this len] upd show ?case
    by simp
qed

lemma initial_word_indices:
  "((replicate (k + 2) (0::int))[0 := s])[k + 1 := e] = [s] @ replicate k 0 @ [e]"
proof -
  have "replicate (k + 2) (0::int) = 0 # replicate k 0 @ [0]"
    by (simp add: replicate_append_same)
  then show ?thesis
    by (simp add: list_update_append)
qed

text \<open>
  Claim C8. The text input of a window of \<open>k\<close> words is the start token, the index of
  every word in order (its vocabulary index when the vocabulary knows it, the unknown
  token otherwise) and the end token: \<open>k + 2\<close> integers, two for an empty window. The
  encoding is a function of the vocabulary and the words and returns no vocabulary.
\<close>

theorem encode_word_window:
  "word_indices lm word_seq
     = [SOS_token lm] @
       map (\<lambda>w. case word2index lm (fst w) of Some i \<Rightarrow> i | None \<Rightarrow> UNK_token lm) word_seq @
       [EOS_token lm] \<and>
   length (word_indices lm word_seq) = length word_seq + 2 \<and>
   word_indices lm [] = [SOS_token lm, EOS_token lm]"
proof -
  have eq: "word_indices lm ws
          = [SOS_token lm] @ map (\<lambda>w. get_word_index lm (fst w)) ws @ [EOS_token lm]" for ws
    unfolding word_indices_def initial_word_indices
    using fold_word_indices[of "[SOS_token lm]" 0 "replicate (length ws) 0" ws lm "[EOS_token lm]"]
    by simp
  show ?thesis
    using eq[of word_seq] eq[of "[]"] by (simp add: get_word_index_def)
qed

lemma np_rows_same:
  "list_all (\<lambda>r. length r = length v) m \<Longrightarrow> np_rows f m v = Inr (map (\<lambda>r. map2 f r v) m)"
  by (induction m) (simp_all add: np_broadcast_def)

lemma map2_by_index:
  "length r = length v \<Longrightarrow> map2 f r v = map (\<lambda>c. f (r ! c) (v ! c)) [0..<length v]"
  by (rule nth_equalityI) simp_all

lemma unnormalize_row:
  assumes "length r = length std" "length mean = length std"
  shows "map2 (+) (map2 (*) r (clip_std std)) mean
           = map (\<lambda>c. r ! c * max (std ! c) (1 / 100) + mean ! c) [0..<length std]"
proof (rule nth_equalityI)
  show "length (map2 (+) (map2 (*) r (clip_std std)) mean)
          = length (map (\<lambda>c. r ! c * max (std ! c) (1 / 100) + mean ! c) [0..<length std])"
    using assms by (simp add: clip_std_def)
next
  fix c assume "c < length (map2 (+) (map2 (*) r (clip_std std)) mean)"
  then have c: "c < length std"
    using assms by (simp add: clip_std_def)
  then show "map2 (+) (map2 (*) r (clip_std std)) mean ! c
               = map (\<lambda>c. r ! c * max (std ! c) (1 / 100) + mean ! c) [0..<length std] ! c"
    using assms by (simp add: clip_std_def)
qed

text \<open>
  Claim C9. When every frame and the mean have as many channels as the standard
  deviation, unnormalisation returns, without exception, the frames with channel \<open>c\<close>
  multiplied by the larger of \<open>std[c]\<close> and \<open>0.01\<close> and shifted by \<open>mean[c]\<close>; the
  clipped deviation is \<open>0.01\<close> below \<open>0.01\<close> and unchanged from there on, with no upper
  bound.
\<close>

theorem unnormalize_elementwise:
  assumes rows: "list_all (\<lambda>r. length r = length std) poses"
      and mean: "length mean = length std"
  shows "unnormalize poses mean std =
           Inr (map (\<lambda>r. map (\<lambda>c. r ! c * max (std ! c) (1 / 100) + mean ! c) [0..<length std])
                    poses) \<and>
         (\<forall>c<length std. clip_std std ! c = (if std ! c < 1 / 100 then 1 / 100 else std ! c))"
proof -
  have clip: "length (clip_std std) = length std"
    by (simp add: clip_std_def)
  have scaled: "np_rows (*) poses (clip_std std)
                  = Inr (map (\<lambda>r. map2 (*) r (clip_std std)) poses)"
    using rows by (simp add: np_rows_same clip)
  have rows': "list_all (\<lambda>r. length r = length mean)
                 (map (\<lambda>r. map2 (*) r (clip_std std)) poses)"
    using rows by (simp add: list_all_iff clip mean)
  have "unnormalize poses mean std
          = Inr (map (\<lambda>r. map2 (+) r mean) (map (\<lambda>r. map2 (*) r (clip_std std)) poses))"
    by (simp add: unnormalize_def scaled np_rows_same[OF rows'])
  also have "map (\<lambda>r. map2 (+) r mean) (map (\<lambda>r. map2 (*) r (clip_std std)) poses)
               = map (\<lambda>r. map (\<lambda>c. r ! c * max (std ! c) (1 / 100) + mean ! c) [0..<length std])
                     poses"
    using rows mean by (simp add: list_all_iff unnormalize_row)
  finally have main: "unnormalize poses mean std =
           Inr (map (\<lambda>r. map (\<lambda>c. r ! c * max (std ! c) (1 / 100) + mean ! c) [0..<length std])
                    poses)" .
  have "\<forall>c<length std. clip_std std ! c = (if std ! c < 1 / 100 then 1 / 100 else std ! c)"
    by (simp add: clip_std_def max_def)
  with main show ?thesis by blast
qed

theorem unnormalize_elementwise_witness:
  "list_all (\<lambda>r. length r = length [1 / 1000, 2 :: real]) [[1, 2], [3, 4]] \<and>
   length [10, 20 :: real] = length [1 / 1000, 2 :: real] \<and>
   unnormalize [[1, 2], [3, 4]] [10, 20] [1 / 1000, 2] = Inr [[1001 / 100, 24], [1003 / 100, 28]]"
  using unnormalize_elementwise[of "[1 / 1000, 2]" "[[1, 2], [3, 4]]" "[10, 20]"]
  by (simp add: upt_conv_Cons)

subsection \<open>The overlap blend\<close>

lemma blend_frame_nth:
  "length prev = length next \<Longrightarrow> c < length next \<Longrightarrow>
   blend_frame n j prev next ! c
     = prev ! c * (real n - real j) / (real n + 1) + next ! c * (real j + 1) / (real n + 1)"
  by (simp add: blend_frame_def frame_add_def frame_div_def frame_mul_def)

text \<open>
  Claim C2. For a non-empty history, \<open>n \<ge> 1\<close> overlap frames, a previous window and a new
  window of at least \<open>n\<close> frames each and frames of \<open>d\<close> channels, the smoothing step
  succeeds, replaces the previous window by its first frames without the last \<open>n\<close>, and
  sets channel \<open>c\<close> of frame \<open>j < n\<close> of the new window to
  \<open>previous_tail[j] * (n - j) / (n + 1) + raw[j] * (j + 1) / (n + 1)\<close>, where
  \<open>previous_tail\<close> is the last \<open>n\<close> frames of the previous window as stored and \<open>raw\<close>
  the decoder's output. At \<open>j = 0\<close> the weights are \<open>n / (n + 1)\<close> and \<open>1 / (n + 1)\<close>,
  at \<open>j = n - 1\<close> they are \<open>1 / (n + 1)\<close> and \<open>n / (n + 1)\<close>; frames from \<open>n\<close> on are
  unchanged.
\<close>

theorem overlap_blend_weights:
  assumes nonempty: "history \<noteq> []"
      and n: "1 \<le> n" "n \<le> length (last history)" "n \<le> length raw"
      and width: "\<forall>f\<in>set (last history). length f = d" "\<forall>f\<in>set raw. length f = d"
      and j: "j < n" and c: "c < d"
      and tail: "previous_tail = drop (length (last history) - n) (last history)"
  shows "\<exists>blended.
           smooth_transition n history raw
             = Inr (butlast history @
                      [take (length (last history) - n) (last history), blended], blended) \<and>
           length blended = length raw \<and>
           blended ! j ! c = previous_tail ! j ! c * real (n - j) / real (n + 1)
                             + raw ! j ! c * real (j + 1) / real (n + 1) \<and>
           blended ! 0 ! c = previous_tail ! 0 ! c * real n / real (n + 1)
                             + raw ! 0 ! c * 1 / real (n + 1) \<and>
           blended ! (n - 1) ! c = previous_tail ! (n - 1) ! c * 1 / real (n + 1)
                                   + raw ! (n - 1) ! c * real n / real (n + 1) \<and>
           drop n blended = drop n raw"
proof -
  have pos: "0 < n" using n(1) by simp
  have sl: "slice_last n (last history) = previous_tail"
    using pos by (simp add: slice_last_tail tail)
  have sbl: "slice_but_last n (last history) = take (length (last history) - n) (last history)"
    using pos by (simp add: slice_but_last_head)
  have len: "length previous_tail = n"
    using n(2) by (simp add: tail)
  have "length (slice_last n (last history)) \<le> length raw"
    using sl len n(3) by simp
  from smooth_transition_next[OF nonempty this] obtain blended where
    run: "smooth_transition n history raw
            = Inr (butlast history @
                     [take (length (last history) - n) (last history), blended], blended)"
    and blen: "length blended = length raw"
    and nth: "\<forall>k<length raw. blended ! k =
                (if k < n then blend_frame n k (previous_tail ! k) (raw ! k) else raw ! k)"
    unfolding sl sbl len by blast
  have formula: "blended ! k ! c = previous_tail ! k ! c * (real n - real k) / (real n + 1)
                                   + raw ! k ! c * (real k + 1) / (real n + 1)"
    if k: "k < n" for k
  proof -
    have "previous_tail ! k \<in> set (last history)"
      using k len by (metis in_set_dropD nth_mem tail)
    then have w1: "length (previous_tail ! k) = d" using width(1) by simp
    have "raw ! k \<in> set raw" using k n(3) by simp
    then have w2: "length (raw ! k) = d" using width(2) by simp
    have "blended ! k = blend_frame n k (previous_tail ! k) (raw ! k)"
      using nth k n(3) by simp
    then show ?thesis
      using blend_frame_nth[of "previous_tail ! k" "raw ! k" c n k] w1 w2 c by simp
  qed
  have f1: "blended ! j ! c = previous_tail ! j ! c * real (n - j) / real (n + 1)
                             + raw ! j ! c * real (j + 1) / real (n + 1)"
    using formula[OF j] j by (simp add: of_nat_diff add.commute)
  have f2: "blended ! 0 ! c = previous_tail ! 0 ! c * real n / real (n + 1)
                             + raw ! 0 ! c * 1 / real (n + 1)"
    using formula[OF pos] by (simp add: add.commute)
  have "n - 1 < n" using pos by simp
  from formula[OF this] have f3:
    "blended ! (n - 1) ! c = previous_tail ! (n - 1) ! c * 1 / real (n + 1)
                                   + raw ! (n - 1) ! c * real n / real (n + 1)"
    using pos by (simp add: of_nat_diff add.commute)
  have f4: "drop n blended = drop n raw"
  proof (rule nth_equalityI)
    show "length (drop n blended) = length (drop n raw)" using blen by simp
    fix k assume "k < length (drop n blended)"
    then have "n + k < length raw" using blen by simp
    then show "drop n blended ! k = drop n raw ! k"
      using nth blen by simp
  qed
  from run blen f1 f2 f3 f4 show ?thesis by blast
qed

theorem overlap_blend_weights_witness:
  "[[[0], [3], [6 :: real]]] \<noteq> [] \<and> (1::nat) \<le> 2 \<and>
   (\<exists>blended.
      smooth_transition 2 [[[0], [3], [6]]] [[0], [3], [6]] = Inr ([[[0]], blended], blended) \<and>
      blended ! 1 ! 0 = 6 * real (2 - 1) / real (2 + 1) + 3 * real (1 + 1) / real (2 + 1) \<and>
      blended ! 0 ! 0 = 3 * real 2 / real (2 + 1) + 0 * 1 / real (2 + 1))"
  using overlap_blend_weights[of "[[[0], [3], [6]]]" 2 "[[0], [3], [6]]" 1 1 0 "[[3], [6]]"]
  by auto

subsection \<open>Subdivisions, invocations and frames\<close>






text \<open>
  Claim C3 at \<open>n_pre_poses = 0\<close>, \<open>n_poses = 1\<close> and a clip of two windows: both windows
  run, each decoder output has one frame, and the result has one frame, where the
  claim's formula gives two. For \<open>1 \<le> n_pre_poses \<le> n_poses\<close> the formula holds
  (lemma \<open>frames_under_contract\<close>).
\<close>

theorem concatenation_length_zero_overlap:
  "generate_gestures (config 1 0 1) (constant_decoder [[4]]) small_vocab words_starting_in
     False [(''hello'', 0, 2)] None True
   = ([([1, 7, 2], 3, []), ([1, 2], 2, [])], Inr [[4]]) \<and>
   n_poses (config 1 0 1) + (2 - 1) * (n_poses (config 1 0 1) - n_pre_poses (config 1 0 1)) = 2"
  by code_simp

text \<open>
  Claim C4 at \<open>n_pre_poses = 0\<close>: the smoothing step empties the previous window and
  rewrites every frame of the new one, and a run of two windows of two poses raises
  RuntimeError when it prepares the seed of the second window.
\<close>

theorem zero_overlap_blend_not_noop:
  "smooth_transition 0 [[[1], [2]]] [[4], [8]] = Inr ([[], [[2], [6]]], [[2], [6]]) \<and>
   generate_gestures (config 2 0 1) (constant_decoder [[4], [8]]) small_vocab words_starting_in
     False [(''hello'', 0, 3)] None True
   = ([([1, 7, 2], 3, [])], Inl RuntimeError)"
  by code_simp

subsection \<open>Seeds\<close>

lemma generate_gestures_short_clip:
  assumes words: "words \<noteq> []"
      and rate: "motion_resampling_framerate a \<noteq> 0"
      and short: "snd (snd (last words)) < unit_time a"
      and pre0: "initial_pre_seq a seed_seq = Inr pre0"
      and answer: "dec (window_text a lm gw words 0) (length (window_text a lm gw words 0)) pre0
                     = Inr raw"
  shows "generate_gestures a dec lm gw cpu words seed_seq verbose
           = ([(window_text a lm gw words 0, length (window_text a lm gw words 0), pre0)],
              Inr raw)"
proof -
  have n0: "num_subdivision a (snd (snd (last words))) = Inr 1"
    using rate short by (simp add: num_subdivision_def)
  have one: "[0..<nat (capped 1)] = [0]"
    by (simp add: capped_def)
  have body: "window_body a dec lm words gw cpu 0
                \<lparr>out_list = [], out_poses = None, pre_seq = pre0, calls = []\<rparr>
              = Inr \<lparr>out_list = [raw], out_poses = Some (after_write cpu raw raw),
                     pre_seq = pre0,
                     calls = [(window_text a lm gw words 0,
                               length (window_text a lm gw words 0), pre0)]\<rparr>"
    using answer by (simp add: window_body_def window_text_def Let_def smooth_transition_first)
  show ?thesis
    using words pre0 n0
    by (simp add: generate_gestures_def Let_def one body aggregate_def capped_def)
qed
















text \<open>
  Claim C6, amended. A configuration with \<open>n_pre_poses > n_poses\<close> is not rejected. With
  a positive frame rate and a non-empty transcript the run makes at most one decoder
  invocation; for a clip shorter than \<open>unit_time\<close> and the default seed it makes exactly
  one, seeded with \<open>n_pre_poses\<close> copies of the mean pose, and returns what the decoder
  answers.
\<close>

theorem oversized_overlap_not_rejected:
  assumes big: "n_poses a < n_pre_poses a"
      and rate: "0 < motion_resampling_framerate a"
      and words: "words \<noteq> []"
  shows "(snd (snd (last words)) < unit_time a \<longrightarrow>
          dec (window_text a lm gw words 0) (length (window_text a lm gw words 0))
              (replicate (n_pre_poses a) (data_mean a)) = Inr raw \<longrightarrow>
          generate_gestures a dec lm gw cpu words None verbose
            = ([(window_text a lm gw words 0, length (window_text a lm gw words 0),
                 replicate (n_pre_poses a) (data_mean a))], Inr raw)) \<and>
         length (fst (generate_gestures a dec lm gw cpu words seed_seq verbose)) \<le> 1"
proof -
  have pre0: "initial_pre_seq a None = Inr (replicate (n_pre_poses a) (data_mean a))"
    using initial_pre_seq_fits[of a None] by (simp add: seed_fits_def first_seed_def)
  have rate': "motion_resampling_framerate a \<noteq> 0" using rate by simp
  have short: "generate_gestures a dec lm gw cpu words None verbose
            = ([(window_text a lm gw words 0, length (window_text a lm gw words 0),
                 replicate (n_pre_poses a) (data_mean a))], Inr raw)"
    if "snd (snd (last words)) < unit_time a"
       "dec (window_text a lm gw words 0) (length (window_text a lm gw words 0))
              (replicate (n_pre_poses a) (data_mean a)) = Inr raw"
    by (rule generate_gestures_short_clip[where dec=dec, OF words rate' that(1) pre0 that(2)])
  have "(real (n_poses a) - real (n_pre_poses a)) / motion_resampling_framerate a \<le> 0"
    using big rate by (simp add: divide_le_0_iff)
  then have neg: "stride_time a \<le> 0"
    by (simp add: stride_time_def float64_nonpos)
  have "length (fst (generate_gestures a dec lm gw cpu words seed_seq verbose)) \<le> 1"
  proof (cases "num_subdivision a (snd (snd (last words)))")
    case (Inl e)
    then have "fst (generate_gestures a dec lm gw cpu words seed_seq verbose) = []"
      by (auto simp: generate_gestures_def split: sum.splits)
    then show ?thesis by simp
  next
    case (Inr n0)
    have "n0 \<le> 1"
    proof (cases "snd (snd (last words)) < unit_time a")
      case True
      then show ?thesis using Inr rate' by (simp add: num_subdivision_def)
    next
      case False
      with Inr rate' have nz: "stride_time a \<noteq> 0"
        and n0: "n0 = \<lceil>float64 (float64 (snd (snd (last words)) - unit_time a)
                                 / stride_time a)\<rceil> + 1"
        by (auto simp: num_subdivision_def split: if_splits)
      have "0 \<le> float64 (snd (snd (last words)) - unit_time a)"
        using False by (simp add: float64_nonneg)
      then have "float64 (snd (snd (last words)) - unit_time a) / stride_time a \<le> 0"
        using neg by (simp add: divide_nonneg_nonpos)
      then have "float64 (float64 (snd (snd (last words)) - unit_time a) / stride_time a) \<le> 0"
        by (rule float64_nonpos)
      then show ?thesis
        using n0 by (simp add: ceiling_le_zero)
    qed
    have "length (fst (generate_gestures a dec lm gw cpu words seed_seq verbose))
            \<le> nat (capped n0)"
      by (rule generate_gestures_calls_le[OF Inr])
    also have "nat (capped n0) \<le> 1"
      using \<open>n0 \<le> 1\<close> by (simp add: capped_def)
    finally show ?thesis .
  qed
  then show ?thesis
    using short by blast
qed

lemma config_unit_example: "1 < unit_time (config 30 40 15)"
  by code_simp

theorem oversized_overlap_not_rejected_witness:
  "n_poses (config 30 40 15) < n_pre_poses (config 30 40 15) \<and>
   0 < motion_resampling_framerate (config 30 40 15) \<and>
   snd (snd (last [(''hello'', 0, 1 :: real)])) < unit_time (config 30 40 15) \<and>
   generate_gestures (config 30 40 15) (constant_decoder (replicate 30 [0])) small_vocab
     words_starting_in False [(''hello'', 0, 1)] None True
     = ([(window_text (config 30 40 15) small_vocab words_starting_in [(''hello'', 0, 1)] 0,
          length (window_text (config 30 40 15) small_vocab words_starting_in
                    [(''hello'', 0, 1)] 0),
          replicate 40 [0])], Inr (replicate 30 [0])) \<and>
   length (fst (generate_gestures (config 30 40 15) (constant_decoder (replicate 30 [0]))
                  small_vocab words_starting_in False [(''hello'', 0, 6)] None True)) \<le> 1"
proof -
  have big: "n_poses (config 30 40 15) < n_pre_poses (config 30 40 15)"
   and rate: "0 < motion_resampling_framerate (config 30 40 15)"
   and fields: "n_pre_poses (config 30 40 15) = 40" "data_mean (config 30 40 15) = [0]"
    by (simp_all add: config_def)
  have short: "snd (snd (last [(''hello'', 0, 1 :: real)])) < unit_time (config 30 40 15)"
    using config_unit_example by simp
  from oversized_overlap_not_rejected[OF big rate, where words="[(''hello'', 0, 1)]"
         and dec="constant_decoder (replicate 30 [0])" and lm=small_vocab
         and gw=words_starting_in and raw="replicate 30 [0]" and cpu=False and verbose=True
         and seed_seq=None] short
  have one: "generate_gestures (config 30 40 15) (constant_decoder (replicate 30 [0])) small_vocab
     words_starting_in False [(''hello'', 0, 1)] None True
     = ([(window_text (config 30 40 15) small_vocab words_starting_in [(''hello'', 0, 1)] 0,
          length (window_text (config 30 40 15) small_vocab words_starting_in
                    [(''hello'', 0, 1)] 0),
          replicate 40 [0])], Inr (replicate 30 [0]))"
    by (simp add: fields constant_decoder_def)
  from oversized_overlap_not_rejected[OF big rate, where words="[(''hello'', 0, 6)]"
         and dec="constant_decoder (replicate 30 [0])" and lm=small_vocab
         and gw=words_starting_in and raw="replicate 30 [0]" and cpu=False and verbose=True
         and seed_seq=None]
  have most: "length (fst (generate_gestures (config 30 40 15)
                  (constant_decoder (replicate 30 [0]))
                  small_vocab words_starting_in False [(''hello'', 0, 6)] None True)) \<le> 1"
    by simp
  from big rate short one most show ?thesis by simp
qed

text \<open>
  Claim C6 as stated fails at its own instance: with \<open>n_pre_poses = 40\<close>,
  \<open>n_poses = 30\<close>, frame rate 15 and a clip of one second, the decoder is invoked once
  and its 30 frames are returned.
\<close>

theorem config_rejection_counterexample:
  "generate_gestures (config 30 40 15) (constant_decoder (replicate 30 [0])) small_vocab
     words_starting_in False [(''hello'', 0, 1)] None True
   = ([([1, 7, 2], 3, replicate 40 [0])], Inr (replicate 30 [0]))"
  by code_simp

subsection \<open>A failing decoder\<close>

text \<open>
  Claim C7, amended. If an invocation of the decoder raises, it is the last invocation
  of the run, every invocation before it succeeded, and the run ends with the decoder's
  own exception, unchanged: no pose sequence is returned, and \<open>main\<close> ends with the same
  exception before anything is unnormalised or written. The exception carries no window
  index.
\<close>

theorem decoder_failure_aborts:
  assumes made: "c \<in> set (fst (generate_gestures a dec lm gw cpu words seed_seq verbose))"
      and failed: "decoder_on dec c = Inl e"
  shows "snd (generate_gestures a dec lm gw cpu words seed_seq verbose) = Inl e \<and>
         last (fst (generate_gestures a dec lm gw cpu words seed_seq verbose)) = c \<and>
         (\<forall>c'\<in>set (butlast (fst (generate_gestures a dec lm gw cpu words seed_seq verbose))).
             \<not> isl (decoder_on dec c')) \<and>
         (seed_seq = None \<longrightarrow> verbose \<longrightarrow> main a dec lm gw cpu make_bvh words = Inl e)"
proof -
  let ?G = "generate_gestures a dec lm gw cpu words seed_seq verbose"
  have bad: "isl (decoder_on dec c)" using failed by simp
  from generate_gestures_outcomes[of a dec lm gw cpu words seed_seq verbose] made bad
  obtain e' where e': "snd ?G = Inl e'" "fst ?G \<noteq> []"
      "decoder_on dec (last (fst ?G)) = Inl e'"
      "\<forall>c'\<in>set (butlast (fst ?G)). \<not> isl (decoder_on dec c')"
    by blast
  have "c \<in> set (butlast (fst ?G) @ [last (fst ?G)])"
    using made e'(2) by simp
  then have "c = last (fst ?G)"
    using e'(4) bad by auto
  then have "e' = e" using e'(3) failed by simp
  have "main a dec lm gw cpu make_bvh words = Inl e" if "seed_seq = None" verbose
    using that e'(1) \<open>e' = e\<close> by (simp add: main_def)
  with e' \<open>c = last (fst ?G)\<close> \<open>e' = e\<close> show ?thesis by simp
qed

theorem decoder_failure_aborts_witness:
  "([1, 2], 2, [[1]]) \<in> set (fst (generate_gestures (config 2 1 1)
        (picky_decoder [[0]] [[1], [1]]) small_vocab words_starting_in False
        [(''hello'', 0, 3)] None True)) \<and>
   decoder_on (picky_decoder [[0]] [[1], [1]]) ([1, 2], 2, [[1]]) = Inl RuntimeError \<and>
   snd (generate_gestures (config 2 1 1) (picky_decoder [[0]] [[1], [1]]) small_vocab
          words_starting_in False [(''hello'', 0, 3)] None True) = Inl RuntimeError \<and>
   main (config 2 1 1) (picky_decoder [[0]] [[1], [1]]) small_vocab words_starting_in False
        Inr [(''hello'', 0, 3)] = Inl RuntimeError"
proof -
  have made: "([1, 2], 2, [[1]]) \<in> set (fst (generate_gestures (config 2 1 1)
        (picky_decoder [[0]] [[1], [1]]) small_vocab words_starting_in False
        [(''hello'', 0, 3)] None True))"
    by code_simp
  have failed: "decoder_on (picky_decoder [[0]] [[1], [1]]) ([1, 2], 2, [[1]]) = Inl RuntimeError"
    by (simp add: decoder_on_def picky_decoder_def)
  from decoder_failure_aborts[OF made failed, where make_bvh=Inr] made failed
  show ?thesis by simp
qed

text \<open>
  Claim C7 as stated fails: a decoder that raises in the first window and one that
  raises in the second end the run with the same exception, which names no window.
\<close>

theorem failing_window_index_counterexample:
  "generate_gestures (config 2 1 1) (picky_decoder [[5]] [[1], [1]]) small_vocab
     words_starting_in False [(''hello'', 0, 3)] None True
   = ([([1, 7, 2], 3, [[0]])], Inl RuntimeError) \<and>
   generate_gestures (config 2 1 1) (picky_decoder [[0]] [[1], [1]]) small_vocab
     words_starting_in False [(''hello'', 0, 3)] None True
   = ([([1, 7, 2], 3, [[0]]), ([1, 2], 2, [[1]])], Inl RuntimeError)"
  by code_simp

end
